theory Spec2Isabelle
  imports Main
begin

section \<open>The host platform of the service worker\<close>

text \<open>
  \<^verbatim>\<open>sw.js\<close> is a service worker: two event listeners that call the browser's
  \<^verbatim>\<open>CacheStorage\<close>, \<^verbatim>\<open>Cache\<close> and \<^verbatim>\<open>fetch\<close> interfaces. The listeners are embedded
  below as they are written; the interfaces they call are embedded here, following the
  algorithms of the Service Worker specification that the script relies on.

  A request is identified by its method and its URL. URLs are strings already resolved
  against the worker's origin, so that the manifest entry \<^verbatim>\<open>'/index.html'\<close> and a page's
  request for that path carry the same string. The field \<open>url\<close> is the URL without its
  fragment, which is what the Cache API compares: two requests that differ only in the
  fragment carry the same \<open>url\<close>. Matching on request headers (\<^verbatim>\<open>Vary\<close>) is outside the
  model.
\<close>

datatype http_method = GET | HEAD | POST | PUT | DELETE | OPTIONS | PATCH

record request =
  req_method :: http_method
  url :: string

record response =
  status :: nat
  headers :: "(string \<times> string) list"
  body :: string

text \<open>
  The ways a promise of the script can reject: \<^verbatim>\<open>fetch\<close> rejects when the network
  fails (the string is the failure's message); \<^verbatim>\<open>Cache.addAll\<close> rejects for a response
  whose status is not in 200..299 or is 206 or whose \<^verbatim>\<open>Vary\<close> header is \<^verbatim>\<open>*\<close>, for a
  request that occurs twice in one batch, and when the storage quota is exceeded.
\<close>

datatype error =
    NetworkError string
  | BadResponse nat
  | VaryAny
  | InvalidState
  | QuotaExceeded

text \<open>
  A \<^verbatim>\<open>Cache\<close> object is its request-response list. \<^verbatim>\<open>CacheStorage\<close> (the global
  \<^verbatim>\<open>caches\<close>) is the name-to-cache map of the origin, ordered by creation. The world
  the worker acts on is this storage together with the log of the requests the worker has
  sent to the network.
\<close>

type_synonym cache = "(request \<times> response) list"

record world =
  caches :: "(string \<times> cache) list"
  netlog :: "request list"

text \<open>
  What the worker cannot control: the answer of the network to a request, and whether
  the host has room to store a given request-response list.
\<close>

record env =
  network :: "request \<Rightarrow> error + response"
  quota_ok :: "cache \<Rightarrow> bool"

subsection \<open>Promises\<close>

text \<open>
  A promise is a computation on the world that settles as rejected (\<open>Inl\<close>) or
  fulfilled (\<open>Inr\<close>). \<^verbatim>\<open>p.then(f)\<close> runs \<open>f\<close> on the value of a fulfilled \<open>p\<close> and adopts
  the promise \<open>f\<close> returns; a rejected \<open>p\<close> skips \<open>f\<close> and stays rejected.
\<close>

type_synonym 'a promise = "world \<Rightarrow> (error + 'a) \<times> world"

definition resolved :: "'a \<Rightarrow> 'a promise" where
  "resolved x w = (Inr x, w)"

definition then_promise :: "'a promise \<Rightarrow> ('a \<Rightarrow> 'b promise) \<Rightarrow> 'b promise" where
  "then_promise p f w =
     (case p w of
        (Inl e, w') \<Rightarrow> (Inl e, w')
      | (Inr x, w') \<Rightarrow> f x w')"

subsection \<open>\<^verbatim>\<open>fetch\<close>\<close>

text \<open>
  \<^verbatim>\<open>fetch(request)\<close> sends the request to the network: one more entry in the log, and
  the promise settles with what the network answers. A response with an error status
  (404, 500) fulfils the promise; only a network failure rejects it.
\<close>

definition fetch :: "env \<Rightarrow> request \<Rightarrow> response promise" where
  "fetch e req w = (network e req, w\<lparr>netlog := netlog w @ [req]\<rparr>)"

subsection \<open>\<^verbatim>\<open>Cache\<close> and \<^verbatim>\<open>CacheStorage\<close>\<close>

text \<open>
  \<^verbatim>\<open>cache.match(request)\<close>: a request whose method is not GET matches nothing;
  otherwise the first entry with the request's URL is the match.
\<close>

fun query_cache :: "cache \<Rightarrow> string \<Rightarrow> response option" where
  "query_cache [] u = None"
| "query_cache ((k, r) # c) u = (if url k = u then Some r else query_cache c u)"

definition cache_match :: "cache \<Rightarrow> request \<Rightarrow> response option" where
  "cache_match c req = (if req_method req \<noteq> GET then None else query_cache c (url req))"

text \<open>
  \<^verbatim>\<open>caches.match(request)\<close>: the caches of the origin are tried in the order of their
  creation, and the first match is the answer; \<open>None\<close> is JavaScript's \<^verbatim>\<open>undefined\<close>.
\<close>

fun first_match :: "(string \<times> cache) list \<Rightarrow> request \<Rightarrow> response option" where
  "first_match [] req = None"
| "first_match ((n, c) # cs) req =
     (case cache_match c req of
        Some r \<Rightarrow> Some r
      | None \<Rightarrow> first_match cs req)"

definition caches_match :: "request \<Rightarrow> (response option) promise" where
  "caches_match req w = (Inr (first_match (caches w) req), w)"

text \<open>
  \<^verbatim>\<open>caches.open(name)\<close>: the cache of that name, created empty at the end of the map when
  there is none. The \<^verbatim>\<open>Cache\<close> object the promise is fulfilled with is a reference into
  the storage; the model passes the name.
\<close>

definition caches_open :: "string \<Rightarrow> string promise" where
  "caches_open name w =
     (Inr name,
      if name \<in> set (map fst (caches w)) then w
      else w\<lparr>caches := caches w @ [(name, [])]\<rparr>)"

text \<open>\<^verbatim>\<open>caches.delete(name)\<close>: removes the cache; fulfilled with whether there was one.\<close>

definition caches_delete :: "string \<Rightarrow> bool promise" where
  "caches_delete name w =
     (Inr (name \<in> set (map fst (caches w))),
      w\<lparr>caches := filter (\<lambda>(k, c). k \<noteq> name) (caches w)\<rparr>)"

definition cache_named :: "world \<Rightarrow> string \<Rightarrow> cache" where
  "cache_named w name = (case map_of (caches w) name of None \<Rightarrow> [] | Some c \<Rightarrow> c)"

definition update_cache :: "string \<Rightarrow> cache \<Rightarrow> (string \<times> cache) list \<Rightarrow> (string \<times> cache) list" where
  "update_cache name c' cs = map (\<lambda>(k, c). if k = name then (k, c') else (k, c)) cs"

text \<open>
  A \<^verbatim>\<open>put\<close> of the batch removes the entries that match the request and appends the
  new request-response pair.
\<close>

definition cache_put :: "request \<times> response \<Rightarrow> cache \<Rightarrow> cache" where
  "cache_put entry c = filter (\<lambda>(k, r). url k \<noteq> url (fst entry)) c @ [entry]"

definition batch_put :: "(request \<times> response) list \<Rightarrow> cache \<Rightarrow> cache" where
  "batch_put entries c = fold cache_put entries c"

text \<open>
  \<^verbatim>\<open>cache.addAll(urls)\<close>: every URL becomes a GET request and every request is fetched.
  A fetch that fails, a response whose status is not ok or is 206, or a response with
  the header \<^verbatim>\<open>Vary: *\<close> rejects the promise (header names are taken as the host
  normalises them, and the value as the single field value).
  Only when all responses are in, the batch of puts runs; it is atomic: a request
  occurring twice or an exceeded quota rejects the promise and leaves the cache as it was.
  All requests are sent before the promise settles, so the log holds every one of them
  also when the promise rejects. The script calls \<^verbatim>\<open>addAll\<close> only on the cache that
  \<^verbatim>\<open>caches.open\<close> has just handed to it.
\<close>

definition Request :: "string \<Rightarrow> request" where
  "Request u = \<lparr>req_method = GET, url = u\<rparr>"

definition ok_status :: "response \<Rightarrow> bool" where
  "ok_status r = (200 \<le> status r \<and> status r \<le> 299)"

definition vary_any :: "response \<Rightarrow> bool" where
  "vary_any r = ((''Vary'', ''*'') \<in> set (headers r))"

definition addAll_response :: "env \<Rightarrow> request \<Rightarrow> error + response" where
  "addAll_response e req =
     (case network e req of
        Inl err \<Rightarrow> Inl err
      | Inr r \<Rightarrow>
          if \<not> ok_status r \<or> status r = 206 then Inl (BadResponse (status r))
          else if vary_any r then Inl VaryAny
          else Inr r)"

fun addAll_responses :: "env \<Rightarrow> request list \<Rightarrow> error + (request \<times> response) list" where
  "addAll_responses e [] = Inr []"
| "addAll_responses e (req # reqs) =
     (case addAll_response e req of
        Inl err \<Rightarrow> Inl err
      | Inr r \<Rightarrow>
          (case addAll_responses e reqs of
             Inl err \<Rightarrow> Inl err
           | Inr entries \<Rightarrow> Inr ((req, r) # entries)))"

definition cache_addAll :: "env \<Rightarrow> string \<Rightarrow> string list \<Rightarrow> unit promise" where
  "cache_addAll e name urls w =
     (let reqs = map Request urls;
          w1 = w\<lparr>netlog := netlog w @ reqs\<rparr>
      in case addAll_responses e reqs of
           Inl err \<Rightarrow> (Inl err, w1)
         | Inr entries \<Rightarrow>
             if \<not> distinct urls then (Inl InvalidState, w1)
             else
               let c' = batch_put entries (cache_named w1 name)
               in if \<not> quota_ok e c' then (Inl QuotaExceeded, w1)
                  else (Inr (), w1\<lparr>caches := update_cache name c' (caches w1)\<rparr>))"

section \<open>The service worker script\<close>

text \<open>
  The script's two constants. The repository holds the script three times with the same
  listeners and different constants: \<^verbatim>\<open>sw.js\<close> itself, and the text that
  \<^verbatim>\<open>createServiceWorker\<close> writes in \<^verbatim>\<open>optimize-simple.js\<close> and in
  \<^verbatim>\<open>optimize-local.js\<close>.
\<close>

record sw_script =
  CACHE_NAME :: string
  urlsToCache :: "string list"

definition sw_js :: sw_script where
  "sw_js = \<lparr>CACHE_NAME = ''dwellable-v1'',
     urlsToCache = [''/'', ''/index.html'', ''/join.html'', ''/home.png'',
       ''/reminders.png'', ''/property_info.png'', ''/inspection.png'']\<rparr>"

definition optimize_simple_sw :: sw_script where
  "optimize_simple_sw = \<lparr>CACHE_NAME = ''dwellable-v1'',
     urlsToCache = [''/'', ''/index.min.html'', ''/home.png'',
       ''/reminders.png'', ''/property_info.png'', ''/inspection.png'']\<rparr>"

definition optimize_local_sw :: sw_script where
  "optimize_local_sw = \<lparr>CACHE_NAME = ''dwellable-v1'',
     urlsToCache = [''/'', ''/index.min.html'', ''/home.webp'',
       ''/reminders.webp'', ''/property_info.webp'', ''/inspection.webp'']\<rparr>"

text \<open>
  The install listener:
  \<^verbatim>\<open>event.waitUntil(caches.open(CACHE_NAME).then(cache => cache.addAll(urlsToCache)))\<close>.
  The function is the promise handed to \<^verbatim>\<open>waitUntil\<close>.
\<close>

definition install_handler :: "sw_script \<Rightarrow> env \<Rightarrow> unit promise" where
  "install_handler sw e =
     then_promise (caches_open (CACHE_NAME sw))
       (\<lambda>cache. cache_addAll e cache (urlsToCache sw))"

text \<open>
  The fetch listener:
  \<^verbatim>\<open>event.respondWith(caches.match(event.request).then(response => response || fetch(event.request)))\<close>.
  The function is the promise handed to \<^verbatim>\<open>respondWith\<close>: fulfilled, its value is the
  response the page receives; rejected, the page's request fails with that error.
  A \<^verbatim>\<open>Response\<close> object is truthy and \<^verbatim>\<open>undefined\<close> is falsy, so \<^verbatim>\<open>||\<close> takes the
  match when there is one and calls \<^verbatim>\<open>fetch\<close> otherwise.
\<close>

definition fetch_handler :: "env \<Rightarrow> request \<Rightarrow> response promise" where
  "fetch_handler e req =
     then_promise (caches_match req)
       (\<lambda>response. case response of
                      Some r \<Rightarrow> resolved r
                    | None \<Rightarrow> fetch e req)"

subsection \<open>Events and the lifecycle of a worker\<close>

text \<open>
  The host dispatches \<^verbatim>\<open>install\<close> once to a worker that is installing; a rejected
  \<^verbatim>\<open>waitUntil\<close> promise makes the worker redundant, a fulfilled one makes it installed.
  An installed worker is activated by \<^verbatim>\<open>activate\<close>, for which the script registers no
  listener. Only an activated worker receives \<^verbatim>\<open>fetch\<close> events.
\<close>

datatype event = InstallEvent | ActivateEvent | FetchEvent request

datatype sw_state = Installing | Installed | Activated | Redundant

fun lifecycle_step :: "sw_script \<Rightarrow> sw_state \<times> world \<Rightarrow> env \<times> event \<Rightarrow> sw_state \<times> world" where
  "lifecycle_step sw (st, w) (e, InstallEvent) =
     (if st = Installing then
        (case install_handler sw e w of
           (Inl err, w') \<Rightarrow> (Redundant, w')
         | (Inr u, w') \<Rightarrow> (Installed, w'))
      else (st, w))"
| "lifecycle_step sw (st, w) (e, ActivateEvent) =
     (if st = Installed then (Activated, w) else (st, w))"
| "lifecycle_step sw (st, w) (e, FetchEvent req) =
     (if st = Activated then (st, snd (fetch_handler e req w)) else (st, w))"

definition lifecycle :: "sw_script \<Rightarrow> (env \<times> event) list \<Rightarrow> sw_state \<times> world \<Rightarrow> sw_state \<times> world" where
  "lifecycle sw evs s = foldl (lifecycle_step sw) s evs"

text \<open>
  The effect of the script's listeners on the world, whatever the state of the worker:
  used for statements about every sequence of events.
\<close>

fun listeners :: "sw_script \<Rightarrow> world \<Rightarrow> env \<times> event \<Rightarrow> world" where
  "listeners sw w (e, InstallEvent) = snd (install_handler sw e w)"
| "listeners sw w (e, ActivateEvent) = w"
| "listeners sw w (e, FetchEvent req) = snd (fetch_handler e req w)"

text \<open>Serving a sequence of fetch events, collecting what each requester receives.\<close>

fun serve :: "env \<Rightarrow> request list \<Rightarrow> world \<Rightarrow> (error + response) list \<times> world" where
  "serve e [] w = ([], w)"
| "serve e (req # reqs) w =
     (case fetch_handler e req w of
        (res, w') \<Rightarrow> (case serve e reqs w' of (ress, w'') \<Rightarrow> (res # ress, w'')))"

subsection \<open>The lookup described by the specification\<close>

text \<open>
  The specification describes the lookup of the fetch listener as a lookup in the store
  named by the current generation tag. This definition follows those words; it is compared
  below with \<open>first_match\<close>, which is what \<^verbatim>\<open>caches.match\<close> of the script does.
\<close>

definition spec_lookup_current_generation :: "sw_script \<Rightarrow> world \<Rightarrow> request \<Rightarrow> response option" where
  "spec_lookup_current_generation sw w req = cache_match (cache_named w (CACHE_NAME sw)) req"

subsection \<open>Concrete hosts\<close>

text \<open>
  A fresh origin; a network that answers every request with status 200 and the URL as the
  body; a network that is down; a network on which one manifest image is missing; a host
  with no room left; and an origin on which an older generation has left its store.
\<close>

definition empty_world :: world where
  "empty_world = \<lparr>caches = [], netlog = []\<rparr>"

definition page :: "string \<Rightarrow> response" where
  "page u = \<lparr>status = 200, headers = [], body = u\<rparr>"

definition online :: env where
  "online = \<lparr>network = (\<lambda>q. Inr (page (url q))), quota_ok = (\<lambda>c. True)\<rparr>"

definition offline :: env where
  "offline = \<lparr>network = (\<lambda>q. Inl (NetworkError ''offline'')), quota_ok = (\<lambda>c. True)\<rparr>"

definition not_found :: response where
  "not_found = \<lparr>status = 404, headers = [], body = ''Not Found''\<rparr>"

definition missing_image :: env where
  "missing_image =
     \<lparr>network = (\<lambda>q. if url q = ''/home.png'' then Inr not_found else Inr (page (url q))),
      quota_ok = (\<lambda>c. True)\<rparr>"

definition full_disk :: env where
  "full_disk = \<lparr>network = (\<lambda>q. Inr (page (url q))), quota_ok = (\<lambda>c. False)\<rparr>"

definition old_page :: response where
  "old_page = \<lparr>status = 200, headers = [], body = ''old''\<rparr>"

definition stale_world :: world where
  "stale_world =
     \<lparr>caches = [(''dwellable-v0'', [(Request ''/index.html'', old_page)]),
                (''dwellable-v1'', [(Request ''/index.html'', page ''/index.html'')])],
      netlog = []\<rparr>"

section \<open>Basic facts about the host operations and the listeners\<close>

lemma fetch_handler_hit:
  "first_match (caches w) req = Some r \<Longrightarrow> fetch_handler e req w = (Inr r, w)"
  by (simp add: fetch_handler_def then_promise_def caches_match_def resolved_def)

lemma fetch_handler_miss:
  "first_match (caches w) req = None \<Longrightarrow> fetch_handler e req w = fetch e req w"
  by (simp add: fetch_handler_def then_promise_def caches_match_def)

lemma fetch_handler_caches: "caches (snd (fetch_handler e req w)) = caches w"
  by (cases "first_match (caches w) req")
     (simp_all add: fetch_handler_hit fetch_handler_miss fetch_def)

lemma install_handler_unfold:
  "install_handler sw e w =
     cache_addAll e (CACHE_NAME sw) (urlsToCache sw) (snd (caches_open (CACHE_NAME sw) w))"
  by (simp add: install_handler_def then_promise_def caches_open_def)

lemma query_cache_append:
  "query_cache (a @ b) u = (case query_cache a u of Some r \<Rightarrow> Some r | None \<Rightarrow> query_cache b u)"
  by (induction a) auto

lemma query_cache_filter:
  "query_cache (filter (\<lambda>(k, r). url k \<noteq> v) c) u = (if u = v then None else query_cache c u)"
  by (induction c) auto

lemma query_cache_put:
  "query_cache (cache_put entry c) u =
     (if u = url (fst entry) then Some (snd entry) else query_cache c u)"
  by (cases entry) (auto simp: cache_put_def query_cache_append query_cache_filter split: option.splits)

lemma query_cache_batch_put:
  "query_cache (batch_put entries c) u =
     (case query_cache (rev entries) u of Some r \<Rightarrow> Some r | None \<Rightarrow> query_cache c u)"
  unfolding batch_put_def
proof (induction entries arbitrary: c)
  case Nil
  then show ?case by simp
next
  case (Cons x xs)
  then show ?case
    by (cases x) (auto simp: query_cache_put query_cache_append split: option.splits)
qed

lemma query_cache_None_iff: "query_cache c u = None \<longleftrightarrow> u \<notin> set (map (\<lambda>p. url (fst p)) c)"
proof (induction c)
  case Nil
  show ?case by simp
next
  case (Cons a c)
  then show ?case by (cases a) auto
qed

lemma addAll_responses_keys:
  "addAll_responses e reqs = Inr entries \<Longrightarrow> map fst entries = reqs"
  by (induction reqs arbitrary: entries) (auto split: sum.splits)

lemma map_of_update_cache:
  "map_of (update_cache n c' cs) t =
     (if t = n then map_option (\<lambda>c. c') (map_of cs t) else map_of cs t)"
  by (induction cs) (auto simp: update_cache_def)

lemma names_update_cache: "map fst (update_cache n c' cs) = map fst cs"
  by (induction cs) (auto simp: update_cache_def)

lemma first_match_hit:
  "(n, c) \<in> set cs \<Longrightarrow> cache_match c req = Some r \<Longrightarrow> \<exists>r'. first_match cs req = Some r'"
  by (induction cs) (auto split: option.splits)


lemma caches_open_world:
  "snd (caches_open n w) =
     (if n \<in> set (map fst (caches w)) then w else w\<lparr>caches := caches w @ [(n, [])]\<rparr>)"
  by (simp add: caches_open_def)

lemma netlog_caches_open: "netlog (snd (caches_open n w)) = netlog w"
  by (simp add: caches_open_def)

lemma names_caches_open: "n \<in> set (map fst (caches (snd (caches_open n w))))"
  by (simp add: caches_open_def)

lemma map_of_caches_open:
  "map_of (caches (snd (caches_open n w))) t =
     (if t = n \<and> n \<notin> set (map fst (caches w)) then Some [] else map_of (caches w) t)"
proof (cases "n \<in> set (map fst (caches w))")
  case True
  then show ?thesis by (simp add: caches_open_def)
next
  case False
  then have "map_of (caches w) n = None"
    by (simp add: map_of_eq_None_iff)
  with False show ?thesis
    by (auto simp: caches_open_def map_add_def split: option.splits)
qed

lemma cache_named_caches_open: "cache_named (snd (caches_open n w)) t = cache_named w t"
proof (cases "t = n \<and> n \<notin> set (map fst (caches w))")
  case True
  then have "map_of (caches w) t = None"
    by (simp add: map_of_eq_None_iff)
  with True show ?thesis
    by (simp add: cache_named_def map_of_caches_open)
next
  case False
  then show ?thesis
    by (auto simp: cache_named_def map_of_caches_open)
qed

lemma install_handler_success:
  assumes "install_handler sw e w = (Inr (), w')"
  shows "\<exists>entries. addAll_responses e (map Request (urlsToCache sw)) = Inr entries
           \<and> distinct (urlsToCache sw)
           \<and> quota_ok e (batch_put entries (cache_named w (CACHE_NAME sw)))
           \<and> caches w' = update_cache (CACHE_NAME sw)
                 (batch_put entries (cache_named w (CACHE_NAME sw)))
                 (caches (snd (caches_open (CACHE_NAME sw) w)))
           \<and> netlog w' = netlog w @ map Request (urlsToCache sw)"
proof -
  let ?wo = "snd (caches_open (CACHE_NAME sw) w)"
  let ?w1 = "?wo\<lparr>netlog := netlog ?wo @ map Request (urlsToCache sw)\<rparr>"
  have named: "cache_named ?w1 (CACHE_NAME sw) = cache_named w (CACHE_NAME sw)"
    using cache_named_caches_open [of "CACHE_NAME sw" w "CACHE_NAME sw"]
    by (simp add: cache_named_def)
  from assms have "cache_addAll e (CACHE_NAME sw) (urlsToCache sw) ?wo = (Inr (), w')"
    by (simp add: install_handler_unfold)
  then show ?thesis
    using named netlog_caches_open [of "CACHE_NAME sw" w]
    by (auto simp: cache_addAll_def Let_def split: sum.splits if_splits)
qed

lemma install_handler_failure:
  assumes "fst (install_handler sw e w) \<noteq> Inr ()"
  shows "caches (snd (install_handler sw e w)) = caches (snd (caches_open (CACHE_NAME sw) w))"
  using assms
  by (auto simp: install_handler_unfold cache_addAll_def Let_def split: sum.splits if_splits)

lemma install_handler_netlog:
  "netlog (snd (install_handler sw e w)) = netlog w @ map Request (urlsToCache sw)"
  by (auto simp: install_handler_unfold cache_addAll_def Let_def netlog_caches_open
      split: sum.splits if_splits)

lemma install_handler_names:
  "map fst (caches (snd (install_handler sw e w)))
     = map fst (caches (snd (caches_open (CACHE_NAME sw) w)))"
  by (auto simp: install_handler_unfold cache_addAll_def Let_def names_update_cache
      split: sum.splits if_splits)

lemma install_handler_other:
  assumes "t \<noteq> CACHE_NAME sw"
  shows "map_of (caches (snd (install_handler sw e w))) t = map_of (caches w) t"
proof -
  have "map_of (caches (snd (install_handler sw e w))) t
          = map_of (caches (snd (caches_open (CACHE_NAME sw) w))) t"
    using assms
    by (auto simp: install_handler_unfold cache_addAll_def Let_def map_of_update_cache
        split: sum.splits if_splits)
  then show ?thesis using assms by (simp add: map_of_caches_open)
qed

lemma first_match_all_None:
  "(\<forall>(n, c) \<in> set cs. cache_match c req = None) \<Longrightarrow> first_match cs req = None"
  by (induction cs) auto

lemma first_match_only_store:
  assumes "distinct (map fst cs)"
    and "\<forall>(n, c) \<in> set cs. n \<noteq> t \<longrightarrow> cache_match c req = None"
  shows "first_match cs req = cache_match (case map_of cs t of None \<Rightarrow> [] | Some c \<Rightarrow> c) req"
  using assms
proof (induction cs)
  case Nil
  show ?case by (simp add: cache_match_def)
next
  case (Cons p cs)
  obtain n c where p: "p = (n, c)" by (cases p)
  show ?case
  proof (cases "n = t")
    case True
    have "cache_match d req = None" if "(m, d) \<in> set cs" for m d
    proof -
      from that Cons.prems(1) p True have "m \<noteq> t" by force
      with that Cons.prems(2) show ?thesis by force
    qed
    then have "\<forall>(m, d) \<in> set cs. cache_match d req = None" by blast
    then have "first_match cs req = None" by (rule first_match_all_None)
    with True p show ?thesis by (simp split: option.splits)
  next
    case False
    with Cons p show ?thesis by auto
  qed
qed

lemma install_manifest_cached:
  assumes inst: "install_handler sw e w = (Inr (), w')"
    and u: "url q \<in> set (urlsToCache sw)" and m: "req_method q = GET"
  shows "\<exists>r. first_match (caches w') q = Some r"
proof -
  let ?n = "CACHE_NAME sw"
  from install_handler_success [OF inst] obtain entries where
    resp: "addAll_responses e (map Request (urlsToCache sw)) = Inr entries" and
    cs: "caches w' = update_cache ?n (batch_put entries (cache_named w ?n))
           (caches (snd (caches_open ?n w)))"
    by blast
  let ?c = "batch_put entries (cache_named w ?n)"
  from resp have keys: "map fst entries = map Request (urlsToCache sw)"
    by (rule addAll_responses_keys)
  have "map (\<lambda>p. url (fst p)) (rev entries) = rev (map url (map fst entries))"
    by (simp add: rev_map)
  with keys have "map (\<lambda>p. url (fst p)) (rev entries) = rev (urlsToCache sw)"
    by (simp add: Request_def comp_def)
  with u have "url q \<in> set (map (\<lambda>p. url (fst p)) (rev entries))" by simp
  then have "query_cache (rev entries) (url q) \<noteq> None"
    by (simp only: query_cache_None_iff not_not)
  then obtain r where "query_cache ?c (url q) = Some r"
    by (auto simp: query_cache_batch_put)
  with m have hit: "cache_match ?c q = Some r" by (simp add: cache_match_def)
  have "?n \<in> set (map fst (caches (snd (caches_open ?n w))))" by (rule names_caches_open)
  then have "(?n, ?c) \<in> set (caches w')"
    unfolding cs update_cache_def by force
  from first_match_hit [OF this hit] show ?thesis .
qed

lemma serve_all_hits:
  assumes "\<forall>q \<in> set reqs. \<exists>r. first_match (caches w) q = Some r"
  shows "snd (serve e reqs w) = w \<and>
     list_all2 (\<lambda>q res. \<exists>r. first_match (caches w) q = Some r \<and> res = Inr r) reqs (fst (serve e reqs w))"
  using assms
proof (induction reqs)
  case Nil
  show ?case by simp
next
  case (Cons q reqs)
  then obtain r where r: "first_match (caches w) q = Some r" by auto
  from Cons have "snd (serve e reqs w) = w \<and>
     list_all2 (\<lambda>q res. \<exists>r. first_match (caches w) q = Some r \<and> res = Inr r) reqs (fst (serve e reqs w))"
    by simp
  with r show ?case
    by (cases "serve e reqs w") (simp add: fetch_handler_hit)
qed

lemma installed_sw_js:
  "install_handler sw_js online empty_world =
     (Inr (), \<lparr>caches = [(''dwellable-v1'', map (\<lambda>u. (Request u, page u)) (urlsToCache sw_js))],
               netlog = map Request (urlsToCache sw_js)\<rparr>)"
  by (simp add: install_handler_unfold caches_open_def cache_addAll_def empty_world_def
      sw_js_def online_def addAll_response_def vary_any_def page_def ok_status_def Request_def
      cache_named_def batch_put_def cache_put_def update_cache_def)

section \<open>Cache hits\<close>

text \<open>
  Claim C1. When \<^verbatim>\<open>caches.match\<close> finds a stored response for the intercepted request, the
  fetch listener answers with exactly that response and the world is unchanged: no request
  is added to the network log and no store is touched. In particular, after an install
  that succeeded, any sequence of GET requests for manifest URLs is answered from the
  storage, each with the stored response, and the world after the sequence is the world
  before it.
\<close>

theorem cache_hit_answers_without_network:
  "(first_match (caches w) req = Some r \<longrightarrow> fetch_handler e req w = (Inr r, w)) \<and>
   (install_handler sw e0 w0 = (Inr (), w1)
      \<and> (\<forall>q \<in> set reqs. req_method q = GET \<and> url q \<in> set (urlsToCache sw)) \<longrightarrow>
    snd (serve e reqs w1) = w1 \<and>
    list_all2 (\<lambda>q res. \<exists>r. first_match (caches w1) q = Some r \<and> res = Inr r)
      reqs (fst (serve e reqs w1)))"
proof (intro conjI impI)
  assume "first_match (caches w) req = Some r"
  then show "fetch_handler e req w = (Inr r, w)" by (rule fetch_handler_hit)
next
  assume a: "install_handler sw e0 w0 = (Inr (), w1)
      \<and> (\<forall>q \<in> set reqs. req_method q = GET \<and> url q \<in> set (urlsToCache sw))"
  then have "\<forall>q \<in> set reqs. \<exists>r. first_match (caches w1) q = Some r"
    using install_manifest_cached by blast
  from serve_all_hits [OF this]
  show "snd (serve e reqs w1) = w1"
    and "list_all2 (\<lambda>q res. \<exists>r. first_match (caches w1) q = Some r \<and> res = Inr r)
      reqs (fst (serve e reqs w1))"
    by simp_all
qed

theorem cache_hit_answers_without_network_witness:
  "fetch_handler offline (Request ''/home.png'') (snd (install_handler sw_js online empty_world))
     = (Inr (page ''/home.png''), snd (install_handler sw_js online empty_world)) \<and>
   snd (serve offline [Request ''/home.png'', Request ''/'', Request ''/home.png'']
          (snd (install_handler sw_js online empty_world)))
     = snd (install_handler sw_js online empty_world)"
proof -
  let ?w1 = "snd (install_handler sw_js online empty_world)"
  let ?reqs = "[Request ''/home.png'', Request ''/'', Request ''/home.png'']"
  have inst: "install_handler sw_js online empty_world = (Inr (), ?w1)"
    by (simp add: installed_sw_js)
  have hit: "first_match (caches ?w1) (Request ''/home.png'') = Some (page ''/home.png'')"
    unfolding installed_sw_js by (simp add: sw_js_def cache_match_def Request_def)
  have reqs: "\<forall>q \<in> set ?reqs. req_method q = GET \<and> url q \<in> set (urlsToCache sw_js)"
    by (simp add: Request_def sw_js_def)
  from cache_hit_answers_without_network
         [of ?w1 "Request ''/home.png''" "page ''/home.png''" offline sw_js online empty_world ?w1 ?reqs]
       inst hit reqs
  show ?thesis by blast
qed

lemma cache_match_non_get: "req_method req \<noteq> GET \<Longrightarrow> cache_match c req = None"
  by (simp add: cache_match_def)

lemma first_match_non_get: "req_method req \<noteq> GET \<Longrightarrow> first_match cs req = None"
  by (rule first_match_all_None) (simp add: cache_match_non_get split: prod.splits)

lemma serve_caches: "caches (snd (serve e reqs w)) = caches w"
proof (induction reqs arbitrary: w)
  case Nil
  show ?case by simp
next
  case (Cons q reqs)
  have "caches (snd (serve e reqs (snd (fetch_handler e q w)))) = caches w"
    by (simp add: Cons.IH fetch_handler_caches)
  then show ?case
    by (cases "fetch_handler e q w"; cases "serve e reqs (snd (fetch_handler e q w))") simp
qed

section \<open>Cache misses\<close>

text \<open>
  Claim C3. When \<^verbatim>\<open>caches.match\<close> finds nothing, the fetch listener sends the request to
  the network exactly once (the log grows by this one request), answers with what the
  network answered, and leaves every store as it was. No fetch event changes the storage,
  hit or miss, one event or a sequence of them; of the events a worker receives, only
  \<^verbatim>\<open>install\<close> can write to it.
\<close>

theorem cache_miss_passes_through:
  "(first_match (caches w) req = None \<longrightarrow>
      fetch_handler e req w = (network e req, w\<lparr>netlog := netlog w @ [req]\<rparr>)) \<and>
   caches (snd (fetch_handler e req w)) = caches w \<and>
   caches (snd (serve e reqs w)) = caches w \<and>
   (ev \<noteq> InstallEvent \<longrightarrow> caches (listeners sw w (e, ev)) = caches w)"
proof (intro conjI impI)
  assume "first_match (caches w) req = None"
  then show "fetch_handler e req w = (network e req, w\<lparr>netlog := netlog w @ [req]\<rparr>)"
    by (simp add: fetch_handler_miss fetch_def)
next
  show "caches (snd (fetch_handler e req w)) = caches w" by (rule fetch_handler_caches)
next
  show "caches (snd (serve e reqs w)) = caches w" by (rule serve_caches)
next
  assume "ev \<noteq> InstallEvent"
  then show "caches (listeners sw w (e, ev)) = caches w"
    by (cases ev) (simp_all add: fetch_handler_caches)
qed

theorem cache_miss_passes_through_witness:
  "fetch_handler online (Request ''/b.png'') (snd (install_handler sw_js online empty_world))
     = (Inr (page ''/b.png''),
        (snd (install_handler sw_js online empty_world))
          \<lparr>netlog := netlog (snd (install_handler sw_js online empty_world)) @ [Request ''/b.png'']\<rparr>) \<and>
   caches (listeners sw_js (snd (install_handler sw_js online empty_world))
             (online, FetchEvent (Request ''/b.png'')))
     = caches (snd (install_handler sw_js online empty_world))"
proof -
  let ?w1 = "snd (install_handler sw_js online empty_world)"
  have miss: "first_match (caches ?w1) (Request ''/b.png'') = None"
    unfolding installed_sw_js by (simp add: sw_js_def cache_match_def Request_def)
  have ev: "FetchEvent (Request ''/b.png'') \<noteq> InstallEvent" by simp
  have net: "network online (Request ''/b.png'') = Inr (page ''/b.png'')"
    by (simp add: online_def Request_def)
  from cache_miss_passes_through
         [of ?w1 "Request ''/b.png''" online "[]" "FetchEvent (Request ''/b.png'')" sw_js]
       miss ev net
  show ?thesis by simp
qed

text \<open>
  Claim C5. When the request misses and the network fails, the requester receives the
  network's error itself. The log grows by the one request (no retry), the promise is
  rejected (no substitute response), and listener and plain \<^verbatim>\<open>fetch\<close> are the same
  computation on the world.
\<close>

theorem miss_network_failure_propagates:
  assumes "first_match (caches w) req = None" and "network e req = Inl err"
  shows "fetch_handler e req w = (Inl err, w\<lparr>netlog := netlog w @ [req]\<rparr>) \<and>
         fetch_handler e req w = fetch e req w"
  using assms by (simp add: fetch_handler_miss fetch_def)

theorem miss_network_failure_propagates_witness:
  "fetch_handler offline (Request ''/b.png'') (snd (install_handler sw_js online empty_world))
     = (Inl (NetworkError ''offline''),
        (snd (install_handler sw_js online empty_world))
          \<lparr>netlog := netlog (snd (install_handler sw_js online empty_world)) @ [Request ''/b.png'']\<rparr>)"
proof -
  let ?w1 = "snd (install_handler sw_js online empty_world)"
  have miss: "first_match (caches ?w1) (Request ''/b.png'') = None"
    unfolding installed_sw_js by (simp add: sw_js_def cache_match_def Request_def)
  have net: "network offline (Request ''/b.png'') = Inl (NetworkError ''offline'')"
    by (simp add: offline_def)
  from miss_network_failure_propagates [OF miss net] show ?thesis by simp
qed

lemma set_cache_put: "set (cache_put entry c) \<subseteq> insert entry (set c)"
  by (auto simp: cache_put_def)

lemma set_batch_put: "set (batch_put entries c) \<subseteq> set entries \<union> set c"
  unfolding batch_put_def
proof (induction entries arbitrary: c)
  case Nil
  show ?case by simp
next
  case (Cons x xs)
  from Cons.IH [of "cache_put x c"] set_cache_put [of x c]
  show ?case by auto
qed

lemma cache_named_update_cache:
  "cache_named (w\<lparr>caches := update_cache n c' (caches w)\<rparr>) t =
     (if t = n \<and> n \<in> set (map fst (caches w)) then c' else cache_named w t)"
proof -
  have "map_of (caches w) n = None \<longleftrightarrow> n \<notin> set (map fst (caches w))"
    by (simp add: map_of_eq_None_iff)
  then show ?thesis
    by (cases "map_of (caches w) n") (auto simp: cache_named_def map_of_update_cache)
qed

lemma install_handler_new_entries:
  assumes "(k, r) \<in> set (cache_named (snd (install_handler sw e w)) t)"
  shows "(k, r) \<in> set (cache_named w t) \<or>
         (t = CACHE_NAME sw \<and> k \<in> set (map Request (urlsToCache sw)))"
proof (cases "fst (install_handler sw e w) = Inr ()")
  case True
  then have "install_handler sw e w = (Inr (), snd (install_handler sw e w))"
    by (metis prod.collapse)
  from install_handler_success [OF this] obtain entries where
    resp: "addAll_responses e (map Request (urlsToCache sw)) = Inr entries" and
    cs: "caches (snd (install_handler sw e w)) = update_cache (CACHE_NAME sw)
           (batch_put entries (cache_named w (CACHE_NAME sw)))
           (caches (snd (caches_open (CACHE_NAME sw) w)))"
    by blast
  let ?wo = "snd (caches_open (CACHE_NAME sw) w)"
  have "cache_named (snd (install_handler sw e w)) t
          = cache_named (?wo\<lparr>caches := update_cache (CACHE_NAME sw)
              (batch_put entries (cache_named w (CACHE_NAME sw))) (caches ?wo)\<rparr>) t"
    by (simp add: cache_named_def cs)
  also have "\<dots> = (if t = CACHE_NAME sw then batch_put entries (cache_named w (CACHE_NAME sw))
                     else cache_named w t)"
    using names_caches_open [of "CACHE_NAME sw" w]
    by (simp add: cache_named_update_cache cache_named_caches_open)
  finally have eq: "cache_named (snd (install_handler sw e w)) t
     = (if t = CACHE_NAME sw then batch_put entries (cache_named w (CACHE_NAME sw))
        else cache_named w t)" .
  show ?thesis
  proof (cases "t = CACHE_NAME sw")
    case True
    with assms eq have "(k, r) \<in> set (batch_put entries (cache_named w (CACHE_NAME sw)))"
      by simp
    with set_batch_put have "(k, r) \<in> set entries \<or> (k, r) \<in> set (cache_named w (CACHE_NAME sw))"
      by blast
    moreover have "k \<in> set (map Request (urlsToCache sw))" if "(k, r) \<in> set entries"
    proof -
      from that have "k \<in> set (map fst entries)" by force
      then show ?thesis by (simp only: addAll_responses_keys [OF resp])
    qed
    ultimately show ?thesis using True by blast
  next
    case False
    with assms eq show ?thesis by simp
  qed
next
  case False
  from install_handler_failure [OF False]
  have "cache_named (snd (install_handler sw e w)) t
          = cache_named (snd (caches_open (CACHE_NAME sw) w)) t"
    by (simp add: cache_named_def)
  with assms show ?thesis by (simp add: cache_named_caches_open)
qed

text \<open>
  Claim C9. A request whose method is not GET never matches in any store, so the fetch
  listener does for it exactly what a plain \<^verbatim>\<open>fetch\<close> does: one network call, the
  network's answer, no store touched. And every entry that an install adds to a store is
  the entry of a GET request.
\<close>

theorem non_get_request_goes_to_network:
  "(req_method req \<noteq> GET \<longrightarrow>
      first_match (caches w) req = None \<and>
      fetch_handler e req w = fetch e req w \<and>
      fetch_handler e req w = (network e req, w\<lparr>netlog := netlog w @ [req]\<rparr>)) \<and>
   ((k, r) \<in> set (cache_named (snd (install_handler sw e0 w0)) t) \<longrightarrow>
      (k, r) \<in> set (cache_named w0 t) \<or> req_method k = GET)"
proof (intro conjI impI)
  assume m: "req_method req \<noteq> GET"
  then show miss: "first_match (caches w) req = None" by (rule first_match_non_get)
  then show "fetch_handler e req w = fetch e req w" by (rule fetch_handler_miss)
  with miss show "fetch_handler e req w = (network e req, w\<lparr>netlog := netlog w @ [req]\<rparr>)"
    by (simp add: fetch_def)
next
  assume "(k, r) \<in> set (cache_named (snd (install_handler sw e0 w0)) t)"
  from install_handler_new_entries [OF this]
  show "(k, r) \<in> set (cache_named w0 t) \<or> req_method k = GET"
    by (auto simp: Request_def)
qed

theorem non_get_request_goes_to_network_witness:
  "fetch_handler online \<lparr>req_method = POST, url = ''/index.html''\<rparr>
       (snd (install_handler sw_js online empty_world))
     = (Inr (page ''/index.html''),
        (snd (install_handler sw_js online empty_world))
          \<lparr>netlog := netlog (snd (install_handler sw_js online empty_world))
                        @ [\<lparr>req_method = POST, url = ''/index.html''\<rparr>]\<rparr>) \<and>
   req_method (Request ''/index.html'') = GET"
proof -
  let ?w1 = "snd (install_handler sw_js online empty_world)"
  let ?post = "\<lparr>req_method = POST, url = ''/index.html''\<rparr>"
  have m: "req_method ?post \<noteq> GET" by simp
  have net: "network online ?post = Inr (page ''/index.html'')"
    by (simp add: online_def)
  have stored: "(Request ''/index.html'', page ''/index.html'')
                  \<in> set (cache_named (snd (install_handler sw_js online empty_world)) ''dwellable-v1'')"
    unfolding installed_sw_js by (simp add: cache_named_def sw_js_def)
  have fresh: "(Request ''/index.html'', page ''/index.html'')
                  \<notin> set (cache_named empty_world ''dwellable-v1'')"
    by (simp add: cache_named_def empty_world_def)
  from non_get_request_goes_to_network
         [where req = ?post and w = ?w1 and e = online and k = "Request ''/index.html''"
            and r = "page ''/index.html''" and sw = sw_js and ?e0.0 = online
            and ?w0.0 = empty_world and t = "''dwellable-v1''"]
       m net stored fresh
  show ?thesis by (simp add: fetch_def)
qed

section \<open>Which store the fetch listener reads\<close>

text \<open>
  Claim C4 says that the fetch listener looks the request up in the store named by the
  current generation tag and in no other store. The script calls \<^verbatim>\<open>caches.match\<close>, which
  tries every store of the origin in creation order. On an origin where generation
  \<^verbatim>\<open>dwellable-v0\<close> has left a store holding \<^verbatim>\<open>/index.html\<close>, the listener of \<^verbatim>\<open>sw.js\<close>
  answers a request for \<^verbatim>\<open>/index.html\<close> with the old generation's response, although the
  current store \<^verbatim>\<open>dwellable-v1\<close> holds a different response for it.
\<close>

theorem lookup_only_in_current_store_counterexample:
  "fetch_handler online (Request ''/index.html'') stale_world = (Inr old_page, stale_world) \<and>
   spec_lookup_current_generation sw_js stale_world (Request ''/index.html'')
     = Some (page ''/index.html'') \<and>
   old_page \<noteq> page ''/index.html''"
  by (simp add: fetch_handler_def then_promise_def caches_match_def resolved_def
      stale_world_def cache_match_def Request_def spec_lookup_current_generation_def
      cache_named_def sw_js_def old_page_def page_def)

text \<open>
  Claim C4, amended. The fetch listener looks the request up in every store of the origin,
  in the order in which the stores were created, and answers with the first match, going
  to the network when there is none. Where the store names are distinct and no store
  other than the current generation's holds a match for the request, this is the lookup
  in the current generation's store.
\<close>

theorem fetch_looks_up_every_store:
  "fetch_handler e req w =
     (case first_match (caches w) req of
        Some r \<Rightarrow> (Inr r, w)
      | None \<Rightarrow> fetch e req w) \<and>
   (distinct (map fst (caches w)) \<and>
    (\<forall>(n, c) \<in> set (caches w). n \<noteq> CACHE_NAME sw \<longrightarrow> cache_match c req = None) \<longrightarrow>
    first_match (caches w) req = spec_lookup_current_generation sw w req)"
proof (intro conjI impI)
  show "fetch_handler e req w =
     (case first_match (caches w) req of Some r \<Rightarrow> (Inr r, w) | None \<Rightarrow> fetch e req w)"
    by (simp add: fetch_handler_hit fetch_handler_miss split: option.splits)
next
  assume "distinct (map fst (caches w)) \<and>
    (\<forall>(n, c) \<in> set (caches w). n \<noteq> CACHE_NAME sw \<longrightarrow> cache_match c req = None)"
  then show "first_match (caches w) req = spec_lookup_current_generation sw w req"
    using first_match_only_store [of "caches w" "CACHE_NAME sw" req]
    by (simp add: spec_lookup_current_generation_def cache_named_def)
qed

lemma installed_over_stale:
  "install_handler sw_js online stale_world =
     (Inr (), \<lparr>caches = [(''dwellable-v0'', [(Request ''/index.html'', old_page)]),
                          (''dwellable-v1'', map (\<lambda>u. (Request u, page u)) (urlsToCache sw_js))],
               netlog = map Request (urlsToCache sw_js)\<rparr>)"
  by (simp add: install_handler_unfold caches_open_def cache_addAll_def stale_world_def
      sw_js_def online_def addAll_response_def vary_any_def page_def ok_status_def Request_def
      cache_named_def batch_put_def cache_put_def update_cache_def)

theorem fetch_looks_up_every_store_witness:
  "map fst (caches (snd (install_handler sw_js online stale_world)))
     = [''dwellable-v0'', ''dwellable-v1''] \<and>
   cache_match [(Request ''/index.html'', old_page)] (Request ''/home.png'') = None \<and>
   first_match (caches (snd (install_handler sw_js online stale_world))) (Request ''/home.png'')
     = spec_lookup_current_generation sw_js (snd (install_handler sw_js online stale_world))
         (Request ''/home.png'') \<and>
   fetch_handler online (Request ''/home.png'') (snd (install_handler sw_js online stale_world))
     = (Inr (page ''/home.png''), snd (install_handler sw_js online stale_world))"
proof -
  let ?w = "snd (install_handler sw_js online stale_world)"
  let ?req = "Request ''/home.png''"
  have names: "map fst (caches ?w) = [''dwellable-v0'', ''dwellable-v1'']"
    unfolding installed_over_stale by simp
  then have d: "distinct (map fst (caches ?w))" by simp
  have stale: "cache_match [(Request ''/index.html'', old_page)] ?req = None"
    by (simp add: cache_match_def Request_def)
  have o: "\<forall>(n, c) \<in> set (caches ?w). n \<noteq> CACHE_NAME sw_js \<longrightarrow> cache_match c ?req = None"
    unfolding installed_over_stale using stale by (simp add: sw_js_def)
  have cur: "spec_lookup_current_generation sw_js ?w ?req = Some (page ''/home.png'')"
    unfolding installed_over_stale
    by (simp add: spec_lookup_current_generation_def cache_named_def cache_match_def
        sw_js_def Request_def)
  note T = fetch_looks_up_every_store [of online ?req ?w sw_js]
  from T d o have same: "first_match (caches ?w) ?req = spec_lookup_current_generation sw_js ?w ?req"
    by blast
  with cur have hit: "first_match (caches ?w) ?req = Some (page ''/home.png'')" by simp
  from T have "fetch_handler online ?req ?w =
     (case first_match (caches ?w) ?req of
        Some r \<Rightarrow> (Inr r, ?w)
      | None \<Rightarrow> fetch online ?req ?w)" by blast
  then have served: "fetch_handler online ?req ?w = (Inr (page ''/home.png''), ?w)"
    by (simp only: hit option.case)
  from names stale same served show ?thesis by blast
qed

lemma lifecycle_step_redundant: "lifecycle_step sw (Redundant, w) ev = (Redundant, w)"
  by (cases ev; cases "snd ev") auto

lemma lifecycle_redundant: "lifecycle sw evs (Redundant, w) = (Redundant, w)"
  unfolding lifecycle_def
  by (induction evs) (simp_all add: lifecycle_step_redundant)

lemma lifecycle_step_install_failure:
  assumes "fst (install_handler sw e w) \<noteq> Inr ()"
  shows "lifecycle_step sw (Installing, w) (e, InstallEvent)
           = (Redundant, snd (install_handler sw e w))"
  using assms by (cases "install_handler sw e w") (auto split: sum.splits)

lemma addAll_responses_failure:
  assumes "u \<in> set urls"
    and "case network e (Request u) of Inl err \<Rightarrow> True | Inr r \<Rightarrow> \<not> ok_status r"
  shows "\<exists>err. addAll_responses e (map Request urls) = Inl err"
  using assms
proof (induction urls)
  case Nil
  then show ?case by simp
next
  case (Cons v urls)
  show ?case
  proof (cases "u = v")
    case True
    with Cons.prems(2) have "\<exists>err. addAll_response e (Request v) = Inl err"
      by (auto simp: addAll_response_def vary_any_def split: sum.splits)
    then show ?thesis by auto
  next
    case False
    with Cons obtain err where "addAll_responses e (map Request urls) = Inl err" by auto
    then show ?thesis by (auto split: sum.splits)
  qed
qed

lemma install_handler_result:
  "fst (install_handler sw e w) =
     (case addAll_responses e (map Request (urlsToCache sw)) of
        Inl err \<Rightarrow> Inl err
      | Inr entries \<Rightarrow>
          if \<not> distinct (urlsToCache sw) then Inl InvalidState
          else if \<not> quota_ok e (batch_put entries (cache_named w (CACHE_NAME sw)))
          then Inl QuotaExceeded else Inr ())"
proof -
  let ?wo = "snd (caches_open (CACHE_NAME sw) w)"
  let ?w1 = "?wo\<lparr>netlog := netlog ?wo @ map Request (urlsToCache sw)\<rparr>"
  have named: "cache_named ?w1 (CACHE_NAME sw) = cache_named w (CACHE_NAME sw)"
    using cache_named_caches_open [of "CACHE_NAME sw" w "CACHE_NAME sw"]
    by (simp add: cache_named_def)
  show ?thesis
    using named
    by (auto simp: install_handler_unfold cache_addAll_def Let_def split: sum.splits)
qed

section \<open>Install\<close>

text \<open>
  Claim C2. Install is all-or-nothing. When the promise of the install listener does not
  fulfil, the storage holds what it held before, except that the store of the generation
  exists, empty, if there was none (no store has gained an entry); the worker becomes
  redundant, and no later sequence of events activates it. The promise does not fulfil
  whenever the fetch of one manifest URL fails or answers with a status that is not ok,
  and whenever the host refuses to store the batch.
\<close>

theorem install_is_all_or_nothing:
  "(fst (install_handler sw e w) \<noteq> Inr () \<longrightarrow>
      caches (snd (install_handler sw e w))
        = (if CACHE_NAME sw \<in> set (map fst (caches w)) then caches w
           else caches w @ [(CACHE_NAME sw, [])]) \<and>
      (\<forall>t. cache_named (snd (install_handler sw e w)) t = cache_named w t) \<and>
      lifecycle_step sw (Installing, w) (e, InstallEvent)
        = (Redundant, snd (install_handler sw e w)) \<and>
      (\<forall>evs. fst (lifecycle sw evs (lifecycle_step sw (Installing, w) (e, InstallEvent)))
               \<noteq> Activated)) \<and>
   ((\<exists>u \<in> set (urlsToCache sw).
        case network e (Request u) of Inl err \<Rightarrow> True | Inr r \<Rightarrow> \<not> ok_status r) \<longrightarrow>
      fst (install_handler sw e w) \<noteq> Inr ()) \<and>
   ((\<forall>entries. addAll_responses e (map Request (urlsToCache sw)) = Inr entries \<longrightarrow>
        \<not> quota_ok e (batch_put entries (cache_named w (CACHE_NAME sw)))) \<longrightarrow>
      fst (install_handler sw e w) \<noteq> Inr ())"
proof (intro conjI impI allI)
  assume f: "fst (install_handler sw e w) \<noteq> Inr ()"
  from install_handler_failure [OF f]
  show c: "caches (snd (install_handler sw e w))
        = (if CACHE_NAME sw \<in> set (map fst (caches w)) then caches w
           else caches w @ [(CACHE_NAME sw, [])])"
    by (simp add: caches_open_world)
  from install_handler_failure [OF f]
  show "cache_named (snd (install_handler sw e w)) t = cache_named w t" for t
    using cache_named_caches_open [of "CACHE_NAME sw" w t] by (simp add: cache_named_def)
  from f show r: "lifecycle_step sw (Installing, w) (e, InstallEvent)
        = (Redundant, snd (install_handler sw e w))"
    by (rule lifecycle_step_install_failure)
  show "fst (lifecycle sw evs (lifecycle_step sw (Installing, w) (e, InstallEvent))) \<noteq> Activated"
    for evs
    by (subst r) (simp add: lifecycle_redundant)
next
  assume "\<exists>u \<in> set (urlsToCache sw).
        case network e (Request u) of Inl err \<Rightarrow> True | Inr r \<Rightarrow> \<not> ok_status r"
  then obtain err where "addAll_responses e (map Request (urlsToCache sw)) = Inl err"
    using addAll_responses_failure by blast
  then show "fst (install_handler sw e w) \<noteq> Inr ()"
    by (simp add: install_handler_result)
next
  assume "\<forall>entries. addAll_responses e (map Request (urlsToCache sw)) = Inr entries \<longrightarrow>
        \<not> quota_ok e (batch_put entries (cache_named w (CACHE_NAME sw)))"
  then show "fst (install_handler sw e w) \<noteq> Inr ()"
    by (auto simp: install_handler_result split: sum.splits)
qed

lemma failed_install_missing_image:
  "install_handler sw_js missing_image empty_world =
     (Inl (BadResponse 404),
      \<lparr>caches = [(''dwellable-v1'', [])], netlog = map Request (urlsToCache sw_js)\<rparr>)"
  by (simp add: install_handler_unfold caches_open_def cache_addAll_def empty_world_def
      sw_js_def missing_image_def addAll_response_def vary_any_def page_def not_found_def ok_status_def
      Request_def)

lemma failed_install_full_disk:
  "install_handler sw_js full_disk empty_world =
     (Inl QuotaExceeded,
      \<lparr>caches = [(''dwellable-v1'', [])], netlog = map Request (urlsToCache sw_js)\<rparr>)"
  by (simp add: install_handler_unfold caches_open_def cache_addAll_def empty_world_def
      sw_js_def full_disk_def addAll_response_def vary_any_def page_def ok_status_def
      Request_def)

theorem install_is_all_or_nothing_witness:
  "fst (install_handler sw_js missing_image empty_world) \<noteq> Inr () \<and>
   caches (snd (install_handler sw_js missing_image empty_world)) = [(''dwellable-v1'', [])] \<and>
   lifecycle_step sw_js (Installing, empty_world) (missing_image, InstallEvent)
     = (Redundant, snd (install_handler sw_js missing_image empty_world)) \<and>
   fst (lifecycle sw_js [(online, ActivateEvent), (online, FetchEvent (Request ''/''))]
          (lifecycle_step sw_js (Installing, empty_world) (missing_image, InstallEvent)))
     \<noteq> Activated \<and>
   fst (install_handler sw_js full_disk empty_world) \<noteq> Inr ()"
proof -
  have bad: "\<exists>u \<in> set (urlsToCache sw_js).
        case network missing_image (Request u) of Inl err \<Rightarrow> True | Inr r \<Rightarrow> \<not> ok_status r"
    by (simp add: sw_js_def missing_image_def Request_def not_found_def ok_status_def)
  have full: "\<forall>entries. addAll_responses full_disk (map Request (urlsToCache sw_js)) = Inr entries \<longrightarrow>
        \<not> quota_ok full_disk (batch_put entries (cache_named empty_world (CACHE_NAME sw_js)))"
    by (simp add: full_disk_def)
  have fresh: "CACHE_NAME sw_js \<notin> set (map fst (caches empty_world))"
    by (simp add: empty_world_def)
  have nm: "CACHE_NAME sw_js = ''dwellable-v1''" and em: "caches empty_world = []"
    by (simp_all add: sw_js_def empty_world_def)
  note T = install_is_all_or_nothing [of sw_js missing_image empty_world]
  from T bad
  have 1: "fst (install_handler sw_js missing_image empty_world) \<noteq> Inr ()" by blast
  from T 1
  have A: "caches (snd (install_handler sw_js missing_image empty_world))
        = (if CACHE_NAME sw_js \<in> set (map fst (caches empty_world)) then caches empty_world
           else caches empty_world @ [(CACHE_NAME sw_js, [])])"
    and 3: "lifecycle_step sw_js (Installing, empty_world) (missing_image, InstallEvent)
     = (Redundant, snd (install_handler sw_js missing_image empty_world))"
    and C: "\<forall>evs. fst (lifecycle sw_js evs
          (lifecycle_step sw_js (Installing, empty_world) (missing_image, InstallEvent)))
     \<noteq> Activated"
    by blast+
  from A fresh nm em
  have 2: "caches (snd (install_handler sw_js missing_image empty_world)) = [(''dwellable-v1'', [])]"
    by simp
  from C
  have 4: "fst (lifecycle sw_js [(online, ActivateEvent), (online, FetchEvent (Request ''/''))]
          (lifecycle_step sw_js (Installing, empty_world) (missing_image, InstallEvent)))
     \<noteq> Activated"
    by blast
  from install_is_all_or_nothing [of sw_js full_disk empty_world] full
  have 5: "fst (install_handler sw_js full_disk empty_world) \<noteq> Inr ()" by blast
  from 1 2 3 4 5 show ?thesis by blast
qed

lemma batch_put_distinct:
  assumes "distinct (map (\<lambda>p. url (fst p)) entries)"
  shows "batch_put entries c =
           filter (\<lambda>(k, r). url k \<notin> set (map (\<lambda>p. url (fst p)) entries)) c @ entries"
  using assms unfolding batch_put_def
proof (induction entries arbitrary: c)
  case Nil
  show ?case by simp
next
  case (Cons x xs)
  then have "fold cache_put xs (cache_put x c) =
      filter (\<lambda>(k, r). url k \<notin> set (map (\<lambda>p. url (fst p)) xs)) (cache_put x c) @ xs"
    by simp
  moreover have "filter (\<lambda>(k, r). url k \<notin> set (map (\<lambda>p. url (fst p)) xs)) (cache_put x c)
      = filter (\<lambda>(k, r). url k \<notin> set (map (\<lambda>p. url (fst p)) (x # xs))) c @ [x]"
    using Cons.prems
    by (cases x) (auto simp: cache_put_def intro!: filter_cong)
  ultimately show ?case by simp
qed

lemma addAll_entries_urls:
  assumes "addAll_responses e (map Request urls) = Inr entries"
  shows "map (\<lambda>p. url (fst p)) entries = urls"
proof -
  have "map (\<lambda>p. url (fst p)) entries = map url (map fst entries)" by simp
  also have "\<dots> = map url (map Request urls)"
    by (simp only: addAll_responses_keys [OF assms])
  also have "\<dots> = urls" by (simp add: Request_def comp_def)
  finally show ?thesis .
qed

lemma installed_store:
  assumes "install_handler sw e w = (Inr (), w1)"
  shows "\<exists>entries. addAll_responses e (map Request (urlsToCache sw)) = Inr entries \<and>
           cache_named w1 (CACHE_NAME sw) =
             filter (\<lambda>(k, r). url k \<notin> set (urlsToCache sw)) (cache_named w (CACHE_NAME sw))
               @ entries"
proof -
  let ?n = "CACHE_NAME sw"
  let ?wo = "snd (caches_open ?n w)"
  from install_handler_success [OF assms] obtain entries where
    resp: "addAll_responses e (map Request (urlsToCache sw)) = Inr entries" and
    d: "distinct (urlsToCache sw)" and
    cs: "caches w1 = update_cache ?n (batch_put entries (cache_named w ?n)) (caches ?wo)"
    by blast
  have "cache_named w1 ?n
          = cache_named (?wo\<lparr>caches := update_cache ?n
              (batch_put entries (cache_named w ?n)) (caches ?wo)\<rparr>) ?n"
    by (simp add: cache_named_def cs)
  also have "\<dots> = batch_put entries (cache_named w ?n)"
    using names_caches_open [of ?n w] by (simp add: cache_named_update_cache)
  also have "\<dots> = filter (\<lambda>(k, r). url k \<notin> set (urlsToCache sw)) (cache_named w ?n) @ entries"
    using batch_put_distinct [of entries "cache_named w ?n"] d
    by (simp add: addAll_entries_urls [OF resp])
  finally show ?thesis using resp by blast
qed

lemma update_cache_idem:
  "update_cache n c (update_cache n c cs) = update_cache n c cs"
  by (induction cs) (auto simp: update_cache_def)

lemma install_handler_opened:
  assumes "install_handler sw e w = (Inr (), w1)"
  shows "snd (caches_open (CACHE_NAME sw) w1) = w1"
proof -
  from install_handler_names [of sw e w] assms
  have "map fst (caches w1) = map fst (caches (snd (caches_open (CACHE_NAME sw) w)))"
    by simp
  with names_caches_open [of "CACHE_NAME sw" w]
  have "CACHE_NAME sw \<in> set (map fst (caches w1))" by simp
  then show ?thesis by (simp add: caches_open_world)
qed

lemma filter_entries_in_manifest:
  assumes "map (\<lambda>p. url (fst p)) entries = urls"
  shows "filter (\<lambda>(k, r). url k \<notin> set urls) entries = []"
proof -
  have *: "url (fst p) \<in> set urls" if "p \<in> set entries" for p
    unfolding assms [symmetric] using that by simp
  show ?thesis unfolding filter_empty_conv using * by fastforce
qed

text \<open>
  Claim C6. Install is idempotent. After an install that succeeded, a second run of the
  install listener against the same network and host succeeds and leaves the storage
  exactly as the first run left it; only the network log grows. Against any network and
  host, a second run that succeeds leaves the store with the same list of keys and the
  storage with the same list of store names; it succeeds whenever all responses are
  acceptable and the host has room, so the keys already present cause no error. Every
  manifest URL is the key of exactly one entry of the store.
\<close>

theorem install_twice_same_keys:
  assumes first: "install_handler sw e w = (Inr (), w1)"
  shows "install_handler sw e w1
           = (Inr (), w1\<lparr>netlog := netlog w1 @ map Request (urlsToCache sw)\<rparr>) \<and>
         (install_handler sw e2 w1 = (Inr (), w2) \<longrightarrow>
            map fst (cache_named w2 (CACHE_NAME sw)) = map fst (cache_named w1 (CACHE_NAME sw)) \<and>
            map fst (caches w2) = map fst (caches w1)) \<and>
         ((\<exists>entries. addAll_responses e2 (map Request (urlsToCache sw)) = Inr entries \<and>
             quota_ok e2 (batch_put entries (cache_named w1 (CACHE_NAME sw)))) \<longrightarrow>
            fst (install_handler sw e2 w1) = Inr ()) \<and>
         (\<forall>u \<in> set (urlsToCache sw).
            length (filter (\<lambda>k. url k = u) (map fst (cache_named w1 (CACHE_NAME sw)))) = 1)"
proof (intro conjI impI ballI)
  let ?n = "CACHE_NAME sw"
  let ?U = "urlsToCache sw"
  let ?wo = "snd (caches_open ?n w)"
  from install_handler_success [OF first] obtain entries where
    resp: "addAll_responses e (map Request ?U) = Inr entries" and
    d: "distinct ?U" and
    q: "quota_ok e (batch_put entries (cache_named w ?n))" and
    cs: "caches w1 = update_cache ?n (batch_put entries (cache_named w ?n)) (caches ?wo)"
    by blast
  from installed_store [OF first] resp
  have store1: "cache_named w1 ?n
      = filter (\<lambda>(k, r). url k \<notin> set ?U) (cache_named w ?n) @ entries"
    by simp
  have urls: "map (\<lambda>p. url (fst p)) entries = ?U" by (rule addAll_entries_urls [OF resp])
  have bp: "batch_put entries (cache_named w ?n)
      = filter (\<lambda>(k, r). url k \<notin> set ?U) (cache_named w ?n) @ entries"
    using batch_put_distinct [of entries "cache_named w ?n"] d urls by simp
  have again: "batch_put entries (cache_named w1 ?n) = cache_named w1 ?n"
    using batch_put_distinct [of entries "cache_named w1 ?n"] d urls
    by (simp add: store1 filter_entries_in_manifest [OF urls])
  have opened: "snd (caches_open ?n w1) = w1" by (rule install_handler_opened [OF first])
  have same: "update_cache ?n (cache_named w1 ?n) (caches w1) = caches w1"
    by (simp add: store1 cs bp update_cache_idem)
  have named: "cache_named (w1\<lparr>netlog := netlog w1 @ map Request ?U\<rparr>) ?n = cache_named w1 ?n"
    by (simp add: cache_named_def)
  from q have q1: "quota_ok e (cache_named w1 ?n)" by (simp add: store1 bp)
  show "install_handler sw e w1 = (Inr (), w1\<lparr>netlog := netlog w1 @ map Request ?U\<rparr>)"
    using resp d q1
    by (simp add: install_handler_unfold opened cache_addAll_def Let_def named again same)
  {
    assume second: "install_handler sw e2 w1 = (Inr (), w2)"
    from installed_store [OF second] obtain entries2 where
      resp2: "addAll_responses e2 (map Request ?U) = Inr entries2" and
      store2: "cache_named w2 ?n
        = filter (\<lambda>(k, r). url k \<notin> set ?U) (cache_named w1 ?n) @ entries2"
      by blast
    have "map fst entries2 = map fst entries"
      by (simp only: addAll_responses_keys [OF resp2] addAll_responses_keys [OF resp])
    then show "map fst (cache_named w2 ?n) = map fst (cache_named w1 ?n)"
      by (simp add: store2 store1 filter_entries_in_manifest [OF urls])
    from install_handler_names [of sw e2 w1] second opened
    show "map fst (caches w2) = map fst (caches w1)" by simp
  }
  {
    assume "\<exists>entries. addAll_responses e2 (map Request ?U) = Inr entries \<and>
             quota_ok e2 (batch_put entries (cache_named w1 ?n))"
    with d show "fst (install_handler sw e2 w1) = Inr ()"
      by (auto simp: install_handler_result)
  }
  {
    fix u assume u: "u \<in> set ?U"
    have "filter (\<lambda>k. url k = u) (map fst (filter (\<lambda>(k, r). url k \<notin> set ?U) (cache_named w ?n))) = []"
      using u by (auto simp: filter_empty_conv)
    moreover have "filter (\<lambda>k. url k = u) (map fst entries) = map Request (filter (\<lambda>v. v = u) ?U)"
      by (simp only: addAll_responses_keys [OF resp]) (simp add: filter_map comp_def Request_def)
    moreover have "length (filter (\<lambda>v. v = u) ?U) = 1"
      using d u by (simp add: distinct_length_filter)
    ultimately show "length (filter (\<lambda>k. url k = u) (map fst (cache_named w1 ?n))) = 1"
      by (simp add: store1)
  }
qed

theorem install_twice_same_keys_witness:
  "install_handler sw_js online (snd (install_handler sw_js online empty_world))
     = (Inr (), (snd (install_handler sw_js online empty_world))
                  \<lparr>netlog := netlog (snd (install_handler sw_js online empty_world))
                                @ map Request (urlsToCache sw_js)\<rparr>) \<and>
   map fst (cache_named
              ((snd (install_handler sw_js online empty_world))
                  \<lparr>netlog := netlog (snd (install_handler sw_js online empty_world))
                                @ map Request (urlsToCache sw_js)\<rparr>)
              (CACHE_NAME sw_js))
     = map fst (cache_named (snd (install_handler sw_js online empty_world)) (CACHE_NAME sw_js)) \<and>
   fst (install_handler sw_js online (snd (install_handler sw_js online empty_world))) = Inr () \<and>
   length (filter (\<lambda>k. url k = ''/home.png'')
             (map fst (cache_named (snd (install_handler sw_js online empty_world))
                         (CACHE_NAME sw_js)))) = 1"
proof -
  let ?w1 = "snd (install_handler sw_js online empty_world)"
  let ?w2 = "?w1\<lparr>netlog := netlog ?w1 @ map Request (urlsToCache sw_js)\<rparr>"
  have inst: "install_handler sw_js online empty_world = (Inr (), ?w1)"
    by (simp add: installed_sw_js)
  note T = install_twice_same_keys [OF inst, of online ?w2]
  from T have 1: "install_handler sw_js online ?w1 = (Inr (), ?w2)" by blast
  from T 1 have 2: "map fst (cache_named ?w2 (CACHE_NAME sw_js))
                      = map fst (cache_named ?w1 (CACHE_NAME sw_js))" by blast
  have "quota_ok online c" for c by (simp add: online_def)
  moreover have "\<exists>entries. addAll_responses online (map Request (urlsToCache sw_js)) = Inr entries"
    by (simp add: sw_js_def online_def addAll_response_def vary_any_def page_def ok_status_def)
  ultimately have ok: "\<exists>entries. addAll_responses online (map Request (urlsToCache sw_js)) = Inr entries
      \<and> quota_ok online (batch_put entries (cache_named ?w1 (CACHE_NAME sw_js)))"
    by blast
  from T ok have 3: "fst (install_handler sw_js online ?w1) = Inr ()" by blast
  have "''/home.png'' \<in> set (urlsToCache sw_js)" by (simp add: sw_js_def)
  with T have 4: "length (filter (\<lambda>k. url k = ''/home.png'')
             (map fst (cache_named ?w1 (CACHE_NAME sw_js)))) = 1" by blast
  from 1 2 3 4 show ?thesis by blast
qed

lemma map_of_caches_delete:
  "map_of (caches (snd (caches_delete n w))) t = (if t = n then None else map_of (caches w) t)"
proof -
  have "map_of (filter (\<lambda>(k, c). k \<noteq> n) cs) t = (if t = n then None else map_of cs t)"
    for cs :: "(string \<times> cache) list"
    by (induction cs) auto
  then show ?thesis by (simp add: caches_delete_def)
qed

lemma install_handler_addressable:
  "map_of (caches (snd (install_handler sw e w))) (CACHE_NAME sw) \<noteq> None"
proof -
  have "CACHE_NAME sw \<in> set (map fst (caches (snd (install_handler sw e w))))"
    using names_caches_open [of "CACHE_NAME sw" w] by (simp only: install_handler_names)
  then show ?thesis by (simp add: map_of_eq_None_iff)
qed

section \<open>Generations\<close>

text \<open>
  Claim C7. Generations are isolated. An install under one tag leaves the store of every
  other tag as it was, and makes the store of its own tag addressable by that tag.
  Deleting the store of one tag removes that store and leaves the store of every other
  tag as it was.
\<close>

theorem generations_are_isolated:
  "(t \<noteq> CACHE_NAME sw \<longrightarrow>
      map_of (caches (snd (install_handler sw e w))) t = map_of (caches w) t) \<and>
   map_of (caches (snd (install_handler sw e w))) (CACHE_NAME sw) \<noteq> None \<and>
   (t \<noteq> t' \<longrightarrow>
      map_of (caches (snd (caches_delete t' w))) t = map_of (caches w) t) \<and>
   map_of (caches (snd (caches_delete t' w))) t' = None"
  by (simp add: install_handler_other install_handler_addressable map_of_caches_delete)

lemma two_generations:
  "caches (snd (install_handler sw_js online
             (snd (install_handler \<lparr>CACHE_NAME = ''dwellable-v2'', urlsToCache = [''/'']\<rparr>
                     online empty_world))))
     = [(''dwellable-v2'', [(Request ''/'', page ''/'')]),
        (''dwellable-v1'', map (\<lambda>u. (Request u, page u)) (urlsToCache sw_js))]"
  by (simp add: install_handler_unfold caches_open_def cache_addAll_def empty_world_def
      sw_js_def online_def addAll_response_def vary_any_def page_def ok_status_def Request_def
      cache_named_def batch_put_def cache_put_def update_cache_def)

theorem generations_are_isolated_witness:
  "map_of (caches (snd (install_handler sw_js online
             (snd (install_handler \<lparr>CACHE_NAME = ''dwellable-v2'', urlsToCache = [''/'']\<rparr>
                     online empty_world))))) ''dwellable-v2''
     = Some [(Request ''/'', page ''/'')] \<and>
   map_of (caches (snd (caches_delete ''dwellable-v1'' (snd (install_handler sw_js online
             (snd (install_handler \<lparr>CACHE_NAME = ''dwellable-v2'', urlsToCache = [''/'']\<rparr>
                     online empty_world))))))) ''dwellable-v2''
     = Some [(Request ''/'', page ''/'')]"
proof -
  let ?v2 = "\<lparr>CACHE_NAME = ''dwellable-v2'', urlsToCache = [''/'']\<rparr>"
  let ?w1 = "snd (install_handler ?v2 online empty_world)"
  let ?w2 = "snd (install_handler sw_js online ?w1)"
  have ne: "''dwellable-v2'' \<noteq> CACHE_NAME sw_js" by (simp add: sw_js_def)
  have ne': "''dwellable-v2'' \<noteq> ''dwellable-v1''" by simp
  have v2: "map_of (caches ?w2) ''dwellable-v2'' = Some [(Request ''/'', page ''/'')]"
    by (simp add: two_generations)
  from generations_are_isolated [of "''dwellable-v2''" sw_js online ?w1 "''dwellable-v1''"] ne
  have "map_of (caches ?w2) ''dwellable-v2'' = map_of (caches ?w1) ''dwellable-v2''" by blast
  moreover
  from generations_are_isolated [of "''dwellable-v2''" sw_js online ?w2 "''dwellable-v1''"] ne'
  have "map_of (caches (snd (caches_delete ''dwellable-v1'' ?w2))) ''dwellable-v2''
          = map_of (caches ?w2) ''dwellable-v2''" by blast
  ultimately show ?thesis using v2 by simp
qed

lemma install_handler_names_grow:
  "map fst (caches (snd (install_handler sw e w)))
     = (if CACHE_NAME sw \<in> set (map fst (caches w)) then map fst (caches w)
        else map fst (caches w) @ [CACHE_NAME sw])"
  by (simp add: install_handler_names caches_open_world)

lemma listeners_other:
  "t \<noteq> CACHE_NAME sw \<Longrightarrow> map_of (caches (listeners sw w ev)) t = map_of (caches w) t"
  by (cases ev; cases "snd ev") (auto simp: install_handler_other fetch_handler_caches)

lemma listeners_names:
  "set (map fst (caches w)) \<subseteq> set (map fst (caches (listeners sw w ev)))"
proof (cases ev)
  case (Pair e x)
  then show ?thesis
    by (cases x) (auto simp: install_handler_names_grow fetch_handler_caches)
qed

lemma foldl_listeners_other:
  "t \<noteq> CACHE_NAME sw \<Longrightarrow>
     map_of (caches (foldl (listeners sw) w evs)) t = map_of (caches w) t"
  by (induction evs arbitrary: w) (simp_all add: listeners_other)

lemma foldl_listeners_names:
  "set (map fst (caches w)) \<subseteq> set (map fst (caches (foldl (listeners sw) w evs)))"
proof (induction evs arbitrary: w)
  case Nil
  show ?case by simp
next
  case (Cons ev evs)
  from listeners_names [of w sw ev] Cons [of "listeners sw w ev"]
  show ?case by auto
qed

lemma lifecycle_step_world:
  "snd (lifecycle_step sw (st, w) ev) = w \<or> snd (lifecycle_step sw (st, w) ev) = listeners sw w ev"
proof (cases ev)
  case (Pair e x)
  then show ?thesis
    by (cases x; cases "install_handler sw e w") (auto split: sum.splits)
qed

lemma lifecycle_step_other:
  "t \<noteq> CACHE_NAME sw \<Longrightarrow>
     map_of (caches (snd (lifecycle_step sw s ev))) t = map_of (caches (snd s)) t"
  using lifecycle_step_world [of sw "fst s" "snd s" ev]
  by (auto simp: listeners_other)

lemma lifecycle_step_names:
  "set (map fst (caches (snd s))) \<subseteq> set (map fst (caches (snd (lifecycle_step sw s ev))))"
proof -
  from lifecycle_step_world [of sw "fst s" "snd s" ev]
  consider "snd (lifecycle_step sw s ev) = snd s"
    | "snd (lifecycle_step sw s ev) = listeners sw (snd s) ev"
    by auto
  then show ?thesis
  proof cases
    case 1
    then show ?thesis by simp
  next
    case 2
    with listeners_names [of "snd s" sw ev] show ?thesis by simp
  qed
qed

lemma lifecycle_other:
  "t \<noteq> CACHE_NAME sw \<Longrightarrow>
     map_of (caches (snd (lifecycle sw evs s))) t = map_of (caches (snd s)) t"
  unfolding lifecycle_def
  by (induction evs arbitrary: s) (simp_all add: lifecycle_step_other)

lemma lifecycle_names:
  "set (map fst (caches (snd s))) \<subseteq> set (map fst (caches (snd (lifecycle sw evs s))))"
  unfolding lifecycle_def
proof (induction evs arbitrary: s)
  case Nil
  show ?case by simp
next
  case (Cons ev evs)
  from lifecycle_step_names [of s sw ev] Cons [of "lifecycle_step sw s ev"]
  show ?case by auto
qed

text \<open>
  Claim C8. No generation is ever cleaned up. Whatever events the listeners of the script
  handle, in whatever order, and whatever events a worker receives through its lifecycle,
  the store of every tag other than the script's own is left as it was, and no store
  disappears: every name the storage held is still there. The script has no
  \<^verbatim>\<open>activate\<close> listener, so activation does nothing to the storage. An install under a
  tag that has no store yet adds its store after the existing ones.
\<close>

theorem no_generation_cleanup:
  "(t \<noteq> CACHE_NAME sw \<longrightarrow>
      map_of (caches (foldl (listeners sw) w evs)) t = map_of (caches w) t \<and>
      map_of (caches (snd (lifecycle sw evs (st, w)))) t = map_of (caches w) t) \<and>
   set (map fst (caches w)) \<subseteq> set (map fst (caches (foldl (listeners sw) w evs))) \<and>
   set (map fst (caches w)) \<subseteq> set (map fst (caches (snd (lifecycle sw evs (st, w))))) \<and>
   map fst (caches (snd (install_handler sw e w)))
     = (if CACHE_NAME sw \<in> set (map fst (caches w)) then map fst (caches w)
        else map fst (caches w) @ [CACHE_NAME sw])"
  using lifecycle_other [of t sw evs "(st, w)"] lifecycle_names [of "(st, w)" sw evs]
    foldl_listeners_other [of t sw w evs] foldl_listeners_names [of w sw evs]
    install_handler_names_grow [of sw e w]
  by simp

theorem no_generation_cleanup_witness:
  "map_of (caches (snd (lifecycle sw_js
       [(online, InstallEvent), (online, ActivateEvent), (online, FetchEvent (Request ''/index.html''))]
       (Installing, stale_world)))) ''dwellable-v0''
     = Some [(Request ''/index.html'', old_page)] \<and>
   map fst (caches (snd (install_handler sw_js online
       \<lparr>caches = [(''dwellable-v0'', [(Request ''/index.html'', old_page)])], netlog = []\<rparr>)))
     = [''dwellable-v0'', ''dwellable-v1'']"
proof -
  let ?evs = "[(online, InstallEvent), (online, ActivateEvent),
               (online, FetchEvent (Request ''/index.html''))]"
  let ?w0 = "\<lparr>caches = [(''dwellable-v0'', [(Request ''/index.html'', old_page)])], netlog = []\<rparr>"
  have ne: "''dwellable-v0'' \<noteq> CACHE_NAME sw_js" by (simp add: sw_js_def)
  have old: "map_of (caches stale_world) ''dwellable-v0'' = Some [(Request ''/index.html'', old_page)]"
    by (simp add: stale_world_def)
  from no_generation_cleanup [of "''dwellable-v0''" sw_js stale_world ?evs Installing online] ne
  have "map_of (caches (snd (lifecycle sw_js ?evs (Installing, stale_world)))) ''dwellable-v0''
          = map_of (caches stale_world) ''dwellable-v0''" by blast
  with old have 1: "map_of (caches (snd (lifecycle sw_js ?evs (Installing, stale_world)))) ''dwellable-v0''
          = Some [(Request ''/index.html'', old_page)]" by simp
  have fresh: "CACHE_NAME sw_js \<notin> set (map fst (caches ?w0))" and nm: "CACHE_NAME sw_js = ''dwellable-v1''"
    by (simp_all add: sw_js_def)
  from no_generation_cleanup [of "''dwellable-v0''" sw_js ?w0 ?evs Installing online] fresh nm
  have 2: "map fst (caches (snd (install_handler sw_js online ?w0))) = [''dwellable-v0'', ''dwellable-v1'']"
    by simp
  from 1 2 show ?thesis by blast
qed

lemma reinstall_same_tag:
  assumes tag: "CACHE_NAME a = CACHE_NAME b"
    and first: "install_handler a e w = (Inr (), w1)"
    and second: "install_handler b e' w1 = (Inr (), w2)"
  shows "map fst (caches w2) = map fst (caches w1) \<and>
         set (map (\<lambda>p. url (fst p)) (cache_named w2 (CACHE_NAME b)))
           = set (map (\<lambda>p. url (fst p)) (cache_named w1 (CACHE_NAME b))) \<union> set (urlsToCache b)"
proof
  from install_handler_opened [OF first] tag
  have "snd (caches_open (CACHE_NAME b) w1) = w1" by simp
  with install_handler_names [of b e' w1] second
  show "map fst (caches w2) = map fst (caches w1)" by simp
next
  from installed_store [OF second] obtain entries where
    resp: "addAll_responses e' (map Request (urlsToCache b)) = Inr entries" and
    store: "cache_named w2 (CACHE_NAME b)
      = filter (\<lambda>(k, r). url k \<notin> set (urlsToCache b)) (cache_named w1 (CACHE_NAME b)) @ entries"
    by blast
  have urls: "map (\<lambda>p. url (fst p)) entries = urlsToCache b"
    by (rule addAll_entries_urls [OF resp])
  have "set (map (\<lambda>p. url (fst p)) (cache_named w2 (CACHE_NAME b)))
          = (\<lambda>p. url (fst p)) ` {p \<in> set (cache_named w1 (CACHE_NAME b)). url (fst p) \<notin> set (urlsToCache b)}
            \<union> set (map (\<lambda>p. url (fst p)) entries)"
    by (simp add: store case_prod_beta)
  also have "\<dots> = set (map (\<lambda>p. url (fst p)) (cache_named w1 (CACHE_NAME b))) \<union> set (urlsToCache b)"
    unfolding urls by auto
  finally show "set (map (\<lambda>p. url (fst p)) (cache_named w2 (CACHE_NAME b)))
           = set (map (\<lambda>p. url (fst p)) (cache_named w1 (CACHE_NAME b))) \<union> set (urlsToCache b)" .
qed

section \<open>The three variants of the script\<close>

text \<open>
  Claim C10. \<^verbatim>\<open>sw.js\<close> and the two scripts written by \<^verbatim>\<open>createServiceWorker\<close> carry the
  same generation tag \<^verbatim>\<open>dwellable-v1\<close>, and their manifests differ from one another. So
  when one variant has been installed and another one is installed after it, no store is
  created: the storage keeps its list of store names, and the one store \<^verbatim>\<open>dwellable-v1\<close>
  now holds the URLs it held together with the URLs of the second manifest.
\<close>

theorem variants_share_generation_tag:
  "CACHE_NAME sw_js = ''dwellable-v1'' \<and>
   CACHE_NAME optimize_simple_sw = ''dwellable-v1'' \<and>
   CACHE_NAME optimize_local_sw = ''dwellable-v1'' \<and>
   urlsToCache sw_js \<noteq> urlsToCache optimize_simple_sw \<and>
   urlsToCache sw_js \<noteq> urlsToCache optimize_local_sw \<and>
   urlsToCache optimize_simple_sw \<noteq> urlsToCache optimize_local_sw \<and>
   (a \<in> {sw_js, optimize_simple_sw, optimize_local_sw} \<and>
    b \<in> {sw_js, optimize_simple_sw, optimize_local_sw} \<and>
    install_handler a e w = (Inr (), w1) \<and> install_handler b e' w1 = (Inr (), w2) \<longrightarrow>
      map fst (caches w2) = map fst (caches w1) \<and>
      set (map (\<lambda>p. url (fst p)) (cache_named w2 ''dwellable-v1''))
        = set (map (\<lambda>p. url (fst p)) (cache_named w1 ''dwellable-v1'')) \<union> set (urlsToCache b))"
proof -
  have tags: "CACHE_NAME sw_js = ''dwellable-v1''" "CACHE_NAME optimize_simple_sw = ''dwellable-v1''"
    "CACHE_NAME optimize_local_sw = ''dwellable-v1''"
    by (simp_all add: sw_js_def optimize_simple_sw_def optimize_local_sw_def)
  have manifests: "urlsToCache sw_js \<noteq> urlsToCache optimize_simple_sw"
    "urlsToCache sw_js \<noteq> urlsToCache optimize_local_sw"
    "urlsToCache optimize_simple_sw \<noteq> urlsToCache optimize_local_sw"
    by (simp_all add: sw_js_def optimize_simple_sw_def optimize_local_sw_def)
  have re: "map fst (caches w2) = map fst (caches w1) \<and>
      set (map (\<lambda>p. url (fst p)) (cache_named w2 ''dwellable-v1''))
        = set (map (\<lambda>p. url (fst p)) (cache_named w1 ''dwellable-v1'')) \<union> set (urlsToCache b)"
    if a: "a \<in> {sw_js, optimize_simple_sw, optimize_local_sw}"
      and b: "b \<in> {sw_js, optimize_simple_sw, optimize_local_sw}"
      and first: "install_handler a e w = (Inr (), w1)"
      and second: "install_handler b e' w1 = (Inr (), w2)"
  proof -
    from a tags have ta: "CACHE_NAME a = ''dwellable-v1''" by auto
    from b tags have tb: "CACHE_NAME b = ''dwellable-v1''" by auto
    from reinstall_same_tag [OF _ first second] ta tb show ?thesis by simp
  qed
  from tags manifests re show ?thesis by blast
qed

theorem variants_share_generation_tag_witness:
  "map fst (caches (snd (install_handler optimize_local_sw online
                           (snd (install_handler sw_js online empty_world)))))
     = map fst (caches (snd (install_handler sw_js online empty_world))) \<and>
   set (map (\<lambda>p. url (fst p))
          (cache_named (snd (install_handler optimize_local_sw online
                               (snd (install_handler sw_js online empty_world)))) ''dwellable-v1''))
     = set (map (\<lambda>p. url (fst p))
              (cache_named (snd (install_handler sw_js online empty_world)) ''dwellable-v1''))
       \<union> set (urlsToCache optimize_local_sw)"
proof -
  let ?w1 = "snd (install_handler sw_js online empty_world)"
  let ?w2 = "snd (install_handler optimize_local_sw online ?w1)"
  have first: "install_handler sw_js online empty_world = (Inr (), ?w1)"
    by (simp add: installed_sw_js)
  have "fst (install_handler optimize_local_sw online ?w1) = Inr ()"
    by (simp add: install_handler_result optimize_local_sw_def online_def addAll_response_def vary_any_def
        page_def ok_status_def)
  then have second: "install_handler optimize_local_sw online ?w1 = (Inr (), ?w2)"
    by (metis prod.collapse)
  have a: "sw_js \<in> {sw_js, optimize_simple_sw, optimize_local_sw}"
    and b: "optimize_local_sw \<in> {sw_js, optimize_simple_sw, optimize_local_sw}"
    by simp_all
  from variants_share_generation_tag
         [of sw_js optimize_local_sw online empty_world ?w1 online ?w2] a b first second
  show ?thesis by blast
qed

end
